theory Spec2Isabelle
  imports Main "HOL-Library.AList"
begin

section \<open>Values\<close>

text \<open>
  The program works on the values that Python's \<^verbatim>\<open>json\<close> module decodes: \<^verbatim>\<open>None\<close>, booleans,
  integers, strings, lists and dictionaries with string keys. A dictionary is an association
  list in insertion order (a Python \<^verbatim>\<open>dict\<close> keeps it); a well-formed one has distinct keys.
  \<^verbatim>\<open>map_of\<close> is \<^verbatim>\<open>d.get(k)\<close> and \<^verbatim>\<open>AList.update k v d\<close> is \<^verbatim>\<open>d[k] = v\<close>: it replaces the value in
  place when the key is there and appends the pair otherwise. Floating point numbers are not
  modelled. A string is a list of 8-bit characters: the bytes of its UTF-8 encoding, which for
  ASCII text are its characters.
\<close>

datatype pyval = PNone | PBool bool | PInt int | PStr string
  | PList "pyval list" | PDict "(string \<times> pyval) list"

type_synonym pydict = "(string \<times> pyval) list"

datatype py_error = KeyError | TypeError | AttributeError | UnicodeDecodeError

text \<open>Python's \<^verbatim>\<open>==\<close> on these values: \<^verbatim>\<open>True == 1\<close>, and dictionaries compare without order.\<close>

fun py_eq :: "pyval \<Rightarrow> pyval \<Rightarrow> bool" where
  "py_eq PNone PNone = True"
| "py_eq (PBool a) (PBool b) = (a = b)"
| "py_eq (PBool a) (PInt i) = (i = (if a then 1 else 0))"
| "py_eq (PInt i) (PBool a) = (i = (if a then 1 else 0))"
| "py_eq (PInt i) (PInt j) = (i = j)"
| "py_eq (PStr s) (PStr t) = (s = t)"
| "py_eq (PList xs) (PList ys) = list_all2 py_eq xs ys"
| "py_eq (PDict d) (PDict e) =
     (length d = length e \<and>
      list_all (\<lambda>kv. list_ex (\<lambda>kw. fst kv = fst kw \<and> py_eq (snd kv) (snd kw)) e) d)"
| "py_eq _ _ = False"

text \<open>Truth value of a value in a condition (\<^verbatim>\<open>if item_id and ...\<close>).\<close>

fun truthy :: "pyval \<Rightarrow> bool" where
  "truthy PNone = False"
| "truthy (PBool b) = b"
| "truthy (PInt i) = (i \<noteq> 0)"
| "truthy (PStr s) = (s \<noteq> [])"
| "truthy (PList xs) = (xs \<noteq> [])"
| "truthy (PDict d) = (d \<noteq> [])"

text \<open>Lists and dictionaries cannot be dictionary keys: hashing them raises \<^verbatim>\<open>TypeError\<close>.\<close>

fun hashable :: "pyval \<Rightarrow> bool" where
  "hashable (PList xs) = False"
| "hashable (PDict d) = False"
| "hashable _ = True"

text \<open>\<^verbatim>\<open>x[:50]\<close> works on strings and lists and raises on every other value.\<close>

fun sliceable :: "pyval \<Rightarrow> bool" where
  "sliceable (PStr s) = True"
| "sliceable (PList xs) = True"
| "sliceable _ = False"

section \<open>Strings\<close>

definition tq :: string where
  \<comment> \<open>The two characters tab, single quote that the messages of the source put around a value.\<close>
  "tq = [CHR 0x09, CHR 0x27]"

fun startswith :: "string \<Rightarrow> string \<Rightarrow> bool" where
  \<comment> \<open>\<^verbatim>\<open>s.startswith(p)\<close> is \<open>startswith p s\<close>.\<close>
  "startswith [] s = True"
| "startswith (p # ps) [] = False"
| "startswith (p # ps) (c # cs) = (p = c \<and> startswith ps cs)"


fun split_at :: "string \<Rightarrow> string \<Rightarrow> (string \<times> string) option" where
  \<comment> \<open>The text before and after the first occurrence of a separator.\<close>
  "split_at sep [] = None"
| "split_at sep (c # cs) =
     (if startswith sep (c # cs) then Some ([], drop (length sep) (c # cs))
      else (case split_at sep cs of None \<Rightarrow> None | Some (a, b) \<Rightarrow> Some (c # a, b)))"

lemma split_at_shorter:
  "split_at sep s = Some (a, b) \<Longrightarrow> sep \<noteq> [] \<Longrightarrow> length b < length s"
proof (induction s arbitrary: a b)
  case Nil
  then show ?case by simp
next
  case (Cons c cs)
  show ?case
  proof (cases "startswith sep (c # cs)")
    case True
    with Cons.prems show ?thesis by (cases sep) auto
  next
    case False
    with Cons.prems obtain a' where "split_at sep cs = Some (a', b)"
      by (auto split: option.splits)
    with Cons.IH Cons.prems(2) show ?thesis by fastforce
  qed
qed

function py_split :: "string \<Rightarrow> string \<Rightarrow> string list" where
  \<comment> \<open>\<^verbatim>\<open>s.split(sep)\<close> is \<open>py_split sep s\<close>. Python raises on an empty separator; the program
      passes two constant separators, neither empty.\<close>
  "py_split sep s =
     (if sep = [] then [s]
      else (case split_at sep s of None \<Rightarrow> [s] | Some (a, b) \<Rightarrow> a # py_split sep b))"
  by pat_completeness auto
termination
  by (relation "measure (\<lambda>(sep, s). length s)") (auto dest: split_at_shorter)

fun py_join :: "string \<Rightarrow> string list \<Rightarrow> string" where
  \<comment> \<open>\<^verbatim>\<open>sep.join(xs)\<close>\<close>
  "py_join sep [] = []"
| "py_join sep [x] = x"
| "py_join sep (x # y # ys) = x @ sep @ py_join sep (y # ys)"

function nat_dec :: "nat \<Rightarrow> string" where
  "nat_dec n =
     (if n < 10 then [''0123456789'' ! n]
      else nat_dec (n div 10) @ [''0123456789'' ! (n mod 10)])"
  by pat_completeness auto
termination
  by (relation "measure (\<lambda>n. n)") auto

definition py_str :: "(pyval \<Rightarrow> string) \<Rightarrow> pyval \<Rightarrow> string" where
  \<comment> \<open>What an f-string prints for a value. A string prints as itself. For a list or a
      dictionary Python prints its built-in \<^verbatim>\<open>repr\<close>, which is the parameter \<open>rp\<close>.\<close>
  "py_str rp v =
     (case v of
        PNone \<Rightarrow> ''None''
      | PBool b \<Rightarrow> (if b then ''True'' else ''False'')
      | PInt i \<Rightarrow> (if i < 0 then ''-'' @ nat_dec (nat (- i)) else nat_dec (nat i))
      | PStr s \<Rightarrow> s
      | _ \<Rightarrow> rp v)"

section \<open>The action item model (data_structures.py)\<close>

definition VALID_STATUSES :: "string list" where
  "VALID_STATUSES = [''Open'', ''In Progress'', ''Completed'', ''Cancelled'']"

definition valid_status :: "pyval \<Rightarrow> bool" where
  \<comment> \<open>\<^verbatim>\<open>v in ["Open", "In Progress", "Completed", "Cancelled"]\<close>\<close>
  "valid_status v = list_ex (\<lambda>s. py_eq v (PStr s)) VALID_STATUSES"

definition create_action_item ::
  "string \<Rightarrow> string \<Rightarrow> pyval \<Rightarrow> pyval \<Rightarrow> pyval \<Rightarrow> pyval \<Rightarrow> pyval \<Rightarrow> pyval \<Rightarrow> pydict" where
  \<comment> \<open>\<open>now\<close> is the clock reading and \<open>uid\<close> the string of \<^verbatim>\<open>uuid.uuid4()\<close> of this call.\<close>
  "create_action_item now uid project_id task owner deadline status source_meeting =
     [(''id'', PStr uid),
      (''project_id'', project_id),
      (''task'', task),
      (''owner'', owner),
      (''deadline'', deadline),
      (''status'', status),
      (''created_at'', PStr now),
      (''updated_at'', PStr now),
      (''source_meeting'', source_meeting),
      (''update_history'', PList [])]"

definition changed_msg :: "(pyval \<Rightarrow> string) \<Rightarrow> string \<Rightarrow> pyval \<Rightarrow> pyval \<Rightarrow> string" where
  "changed_msg rp key old new =
     ''Changed '' @ tq @ key @ tq @ '' from '' @ tq @ py_str rp old @ tq
       @ '' to '' @ tq @ py_str rp new @ tq"

definition added_msg :: "(pyval \<Rightarrow> string) \<Rightarrow> string \<Rightarrow> pyval \<Rightarrow> string" where
  "added_msg rp key new =
     ''Added '' @ tq @ key @ tq @ '' with value '' @ tq @ py_str rp new @ tq"

fun apply_updates ::
  "(pyval \<Rightarrow> string) \<Rightarrow> pydict \<Rightarrow> pydict \<times> string list \<Rightarrow> pydict \<times> string list" where
  \<comment> \<open>The loop over \<^verbatim>\<open>updates.items()\<close>; the state is the item and the change log.\<close>
  "apply_updates rp [] (item, change_log) = (item, change_log)"
| "apply_updates rp ((key, v) # us) (item, change_log) =
     (case map_of item key of
        Some old \<Rightarrow>
          if \<not> py_eq old v
          then apply_updates rp us
                 (AList.update key v item, change_log @ [changed_msg rp key old v])
          else apply_updates rp us (item, change_log)
      | None \<Rightarrow>
          apply_updates rp us (AList.update key v item, change_log @ [added_msg rp key v]))"

definition history_entry :: "string \<Rightarrow> string list \<Rightarrow> pyval" where
  "history_entry now change_log =
     PDict [(''timestamp'', PStr now), (''changes'', PStr (py_join ''; '' change_log))]"

definition history_list :: "pydict \<Rightarrow> pyval list" where
  \<comment> \<open>The list that the entry is appended to: the item's history when it is a list, and a new
      empty list otherwise.\<close>
  "history_list item =
     (case map_of item ''update_history'' of Some (PList h) \<Rightarrow> h | _ \<Rightarrow> [])"

definition record_history :: "string \<Rightarrow> string list \<Rightarrow> pydict \<Rightarrow> pydict" where
  \<comment> \<open>\<^verbatim>\<open>if change_log: ...\<close>\<close>
  "record_history now change_log item =
     (if change_log = [] then item
      else
        (let item1 = AList.update ''updated_at'' (PStr now) item
         in AList.update ''update_history''
              (PList (history_list item1 @ [history_entry now change_log])) item1))"

fun find_original :: "string list \<Rightarrow> pyval \<Rightarrow> pyval" where
  \<comment> \<open>The loop over \<^verbatim>\<open>reversed(change_log)\<close> that reads the previous status back from the
      messages; the first argument is the reversed log.\<close>
  "find_original [] original_status = original_status"
| "find_original (change # rest) original_status =
     (if startswith (''Changed '' @ tq @ ''status'' @ tq) change
      then (let parts = py_split ('' from '' @ tq) change
            in if length parts > 1
               then PStr (hd (py_split (tq @ '' to'') (parts ! 1)))
               else find_original rest original_status)
      else find_original rest original_status)"

definition dict_get :: "pydict \<Rightarrow> string \<Rightarrow> pyval" where
  \<comment> \<open>\<^verbatim>\<open>d.get(k)\<close>, \<^verbatim>\<open>None\<close> when the key is missing\<close>
  "dict_get d k = (case map_of d k of Some v \<Rightarrow> v | None \<Rightarrow> PNone)"

definition revert_status :: "pydict \<Rightarrow> string list \<Rightarrow> pydict \<Rightarrow> pydict" where
  \<comment> \<open>\<^verbatim>\<open>if "status" in updates and updates["status"] not in [...]: ...\<close>\<close>
  "revert_status updates change_log item =
     (case map_of updates ''status'' of
        Some st \<Rightarrow>
          if \<not> valid_status st
          then AList.update ''status''
                 (find_original (rev change_log) (dict_get item ''status'')) item
          else item
      | None \<Rightarrow> item)"

definition update_action_item ::
  "(pyval \<Rightarrow> string) \<Rightarrow> string \<Rightarrow> pydict \<Rightarrow> pydict \<Rightarrow> pydict" where
  \<comment> \<open>The source mutates \<open>item\<close> and returns it; the model returns the new value.\<close>
  "update_action_item rp now item updates =
     (case apply_updates rp updates (item, []) of
        (item1, change_log) \<Rightarrow>
          revert_status updates change_log (record_history now change_log item1))"

definition differs :: "pydict \<Rightarrow> string \<times> pyval \<Rightarrow> bool" where
  \<comment> \<open>The pair of an update changes the item: its key is new, or its value is not equal
      (\<^verbatim>\<open>!=\<close>) to the item's.\<close>
  "differs item kv =
     (case map_of item (fst kv) of None \<Rightarrow> True | Some old \<Rightarrow> \<not> py_eq old (snd kv))"

section \<open>The reconciler (action_item_parser.py, process_parsed_items)\<close>

text \<open>
  What the function reads from outside the program: Python's \<^verbatim>\<open>repr\<close> of lists and
  dictionaries, the clock and the identifier generator. \<open>utcnow e i\<close> is the clock reading
  and \<open>uuid4 e i\<close> the identifier drawn while candidate number \<open>i\<close> is processed.
\<close>

record env =
  repr_of :: "pyval \<Rightarrow> string"
  utcnow :: "nat \<Rightarrow> string"
  uuid4 :: "nat \<Rightarrow> string"

text \<open>
  \<^verbatim>\<open>existing_items_map\<close> maps an id to an item object. The items are mutated in place, so the
  model keeps the list of items as the store and maps an id to the position of its item.
  Keys are compared as a Python dictionary compares them, with \<^verbatim>\<open>==\<close>.
\<close>

fun map_put :: "pyval \<Rightarrow> nat \<Rightarrow> (pyval \<times> nat) list \<Rightarrow> (pyval \<times> nat) list" where
  "map_put k i [] = [(k, i)]"
| "map_put k i ((k', j) # m) =
     (if py_eq k' k then (k', i) # m else (k', j) # map_put k i m)"

fun map_get :: "pyval \<Rightarrow> (pyval \<times> nat) list \<Rightarrow> nat option" where
  "map_get k [] = None"
| "map_get k ((k', j) # m) = (if py_eq k' k then Some j else map_get k m)"

fun build_map ::
  "pyval list \<Rightarrow> nat \<Rightarrow> (pyval \<times> nat) list \<Rightarrow> py_error + (pyval \<times> nat) list" where
  \<comment> \<open>\<^verbatim>\<open>{item["id"]: item for item in existing_items}\<close>: \<^verbatim>\<open>item["id"]\<close> raises \<^verbatim>\<open>KeyError\<close> on
      a dictionary without the key and \<^verbatim>\<open>TypeError\<close> on a value that is no dictionary; a list
      or a dictionary as the key raises \<^verbatim>\<open>TypeError\<close>.\<close>
  "build_map [] i m = Inr m"
| "build_map (item # items) i m =
     (case item of
        PDict d \<Rightarrow>
          (case map_of d ''id'' of
             None \<Rightarrow> Inl KeyError
           | Some k \<Rightarrow>
               if hashable k then build_map items (Suc i) (map_put k i m) else Inl TypeError)
      | _ \<Rightarrow> Inl TypeError)"

definition IMMUTABLE_KEYS :: "string list" where
  "IMMUTABLE_KEYS = [''id'', ''project_id'', ''created_at'', ''update_history'']"

definition updates_of :: "pydict \<Rightarrow> pydict" where
  \<comment> \<open>\<^verbatim>\<open>{k: v for k, v in llm_item.items() if k not in [...]}\<close>\<close>
  "updates_of llm_item = filter (\<lambda>kv. fst kv \<notin> set IMMUTABLE_KEYS) llm_item"

definition new_item_of :: "string \<Rightarrow> string \<Rightarrow> string \<Rightarrow> pyval \<Rightarrow> pydict \<Rightarrow> pydict" where
  \<comment> \<open>The item built for a candidate that has the key \<^verbatim>\<open>task\<close>, with value \<open>task\<close>.\<close>
  "new_item_of now uid project_id task llm_item =
     (let new_item =
            create_action_item now uid (PStr project_id) task
              (dict_get llm_item ''owner'') (dict_get llm_item ''deadline'')
              (case map_of llm_item ''status'' of Some s \<Rightarrow> s | None \<Rightarrow> PStr ''Open'')
              (PStr ''LLM Extraction'')
      in case map_of llm_item ''status'' of
           Some s \<Rightarrow>
             if \<not> valid_status s then AList.update ''status'' (PStr ''Open'') new_item
             else new_item
         | None \<Rightarrow> new_item)"

definition lookup_id :: "pyval \<Rightarrow> (pyval \<times> nat) list \<Rightarrow> py_error + nat option" where
  \<comment> \<open>\<^verbatim>\<open>item_id and item_id in existing_items_map\<close>: a false \<^verbatim>\<open>item_id\<close> is never looked up,
      a true one is hashed first.\<close>
  "lookup_id item_id m =
     (if \<not> truthy item_id then Inr None
      else if \<not> hashable item_id then Inl TypeError
      else Inr (map_get item_id m))"

definition process_item ::
  "env \<Rightarrow> string \<Rightarrow> (pyval \<times> nat) list \<Rightarrow> nat \<Rightarrow> pyval \<Rightarrow> pyval list \<times> pyval list
     \<Rightarrow> py_error + pyval list \<times> pyval list" where
  \<comment> \<open>The body of the loop over \<^verbatim>\<open>parsed_items\<close>. The state is the list of existing items and
      \<^verbatim>\<open>newly_created_items\<close>. \<^verbatim>\<open>llm_item.get\<close> raises \<^verbatim>\<open>AttributeError\<close> on a value that is
      no dictionary. The message printed before an item is created slices
      \<^verbatim>\<open>llm_item.get(K)[:50]\<close>, where the key \<^verbatim>\<open>K\<close> written in the source is the four letters
      \<^verbatim>\<open>task\<close> followed by a tab character (the tab is inside the quotes): the slice raises
      \<^verbatim>\<open>TypeError\<close> unless the candidate has that key with a string or a list, whatever its
      \<^verbatim>\<open>task\<close> is. A position found in the map is a position of a dictionary of the list; the
      two branches for anything else are never taken.\<close>
  "process_item e project_id existing_items_map i llm_item st =
     (case st of (items, newly_created_items) \<Rightarrow>
       (case llm_item of
          PDict c \<Rightarrow>
            (case lookup_id (dict_get c ''id'') existing_items_map of
               Inl err \<Rightarrow> Inl err
             | Inr (Some j) \<Rightarrow>
                 if j < length items
                 then (case items ! j of
                         PDict existing_item \<Rightarrow>
                           Inr (items[j := PDict (update_action_item (repr_of e) (utcnow e i)
                                                   existing_item (updates_of c))],
                                newly_created_items)
                       | _ \<Rightarrow> Inl TypeError)
                 else Inl KeyError
             | Inr None \<Rightarrow>
                 (case map_of c ''task'' of
                    Some task \<Rightarrow>
                      if sliceable (dict_get c (''task'' @ [CHR 0x09]))
                      then Inr (items,
                                newly_created_items
                                  @ [PDict (new_item_of (utcnow e i) (uuid4 e i)
                                              project_id task c)])
                      else Inl TypeError
                  | None \<Rightarrow> Inr (items, newly_created_items)))
        | _ \<Rightarrow> Inl AttributeError))"

fun process_loop ::
  "env \<Rightarrow> string \<Rightarrow> (pyval \<times> nat) list \<Rightarrow> nat \<Rightarrow> pyval list \<Rightarrow> pyval list \<times> pyval list
     \<Rightarrow> py_error + pyval list \<times> pyval list" where
  "process_loop e project_id m i [] st = Inr st"
| "process_loop e project_id m i (llm_item # rest) st =
     (case process_item e project_id m i llm_item st of
        Inl err \<Rightarrow> Inl err
      | Inr st' \<Rightarrow> process_loop e project_id m (Suc i) rest st')"

definition process_parsed_items ::
  "env \<Rightarrow> string \<Rightarrow> pyval list \<Rightarrow> pyval list \<Rightarrow> py_error + pyval list" where
  "process_parsed_items e project_id parsed_items existing_items =
     (case build_map existing_items 0 [] of
        Inl err \<Rightarrow> Inl err
      | Inr existing_items_map \<Rightarrow>
          (case process_loop e project_id existing_items_map 0 parsed_items
                  (existing_items, []) of
             Inl err \<Rightarrow> Inl err
           | Inr (items, newly_created_items) \<Rightarrow> Inr (items @ newly_created_items)))"

section \<open>The response parser (action_item_parser.py, parse_llm_json_response)\<close>

fun py_find :: "char \<Rightarrow> string \<Rightarrow> int" where
  \<comment> \<open>\<^verbatim>\<open>s.find(c)\<close>: the first position of the character, or -1\<close>
  "py_find c [] = - 1"
| "py_find c (x # xs) =
     (if x = c then 0 else (let r = py_find c xs in if r = - 1 then - 1 else r + 1))"

definition py_rfind :: "char \<Rightarrow> string \<Rightarrow> int" where
  \<comment> \<open>\<^verbatim>\<open>s.rfind(c)\<close>: the last position of the character, or -1\<close>
  "py_rfind c s =
     (let r = py_find c (rev s) in if r = - 1 then - 1 else int (length s) - 1 - r)"

definition py_slice :: "int \<Rightarrow> int \<Rightarrow> string \<Rightarrow> string" where
  \<comment> \<open>\<^verbatim>\<open>s[a:b]\<close> for bounds that are not negative\<close>
  "py_slice a b s = take (nat (b - a)) (drop (nat a) s)"

definition parse_llm_json_response ::
  "(string \<Rightarrow> pyval option) \<Rightarrow> string \<Rightarrow> pyval list option" where
  \<comment> \<open>\<open>loads\<close> is \<^verbatim>\<open>json.loads\<close>, with \<open>None\<close> for \<^verbatim>\<open>JSONDecodeError\<close>. The result \<open>None\<close> is
      Python's \<^verbatim>\<open>None\<close>.\<close>
  "parse_llm_json_response loads response_content =
     (if response_content = [] then None
      else
        (let json_start = py_find (CHR ''['') response_content;
             json_end = py_rfind (CHR '']'') response_content
         in if json_start = - 1 \<or> json_end = - 1 \<or> json_end < json_start
            then
              (let json_start_obj = py_find (CHR ''{'') response_content;
                   json_end_obj = py_rfind (CHR ''}'') response_content
               in if json_start_obj \<noteq> - 1 \<and> json_end_obj \<noteq> - 1
                       \<and> json_end_obj > json_start_obj
                  then (case loads (py_slice json_start_obj (json_end_obj + 1)
                                      response_content) of
                          Some (PDict d) \<Rightarrow> Some [PDict d]
                        | Some _ \<Rightarrow> None
                        | None \<Rightarrow> None)
                  else None)
            else (case loads (py_slice json_start (json_end + 1) response_content) of
                    Some (PList xs) \<Rightarrow> Some xs
                  | Some _ \<Rightarrow> None
                  | None \<Rightarrow> None)))"

section \<open>The store (memory_manager.py)\<close>

text \<open>
  A file holds bytes, and a string is modelled by the bytes of its UTF-8 encoding (for ASCII
  text, its characters). Opening a file with \<^verbatim>\<open>encoding='utf-8'\<close> and reading it decodes the
  bytes strictly: \<^verbatim>\<open>UnicodeDecodeError\<close> is raised unless they are well-formed UTF-8.
\<close>

definition byte_in :: "nat \<Rightarrow> nat \<Rightarrow> char \<Rightarrow> bool" where
  "byte_in lo hi c = (lo \<le> of_char c \<and> of_char c \<le> hi)"

fun utf8_valid :: "string \<Rightarrow> bool" where
  "utf8_valid [] = True"
| "utf8_valid (a # s) =
     (let x = (of_char a :: nat) in
      if x < 0x80 then utf8_valid s
      else if 0xC2 \<le> x \<and> x \<le> 0xDF then
        (case s of
           b # s' \<Rightarrow> byte_in 0x80 0xBF b \<and> utf8_valid s'
         | _ \<Rightarrow> False)
      else if 0xE0 \<le> x \<and> x \<le> 0xEF then
        (case s of
           b # c # s' \<Rightarrow>
             byte_in (if x = 0xE0 then 0xA0 else 0x80) (if x = 0xED then 0x9F else 0xBF) b
             \<and> byte_in 0x80 0xBF c \<and> utf8_valid s'
         | _ \<Rightarrow> False)
      else if 0xF0 \<le> x \<and> x \<le> 0xF4 then
        (case s of
           b # c # d # s' \<Rightarrow>
             byte_in (if x = 0xF0 then 0x90 else 0x80) (if x = 0xF4 then 0x8F else 0xBF) b
             \<and> byte_in 0x80 0xBF c \<and> byte_in 0x80 0xBF d \<and> utf8_valid s'
         | _ \<Rightarrow> False)
      else False)"

text \<open>
  What loading reads from outside the program: the configured directory, Python's
  \<^verbatim>\<open>str.isalnum\<close> on a string of one character (given as the bytes of that character), and
  the JSON decoder (\<open>json_loads\<close> gives \<open>None\<close> for \<^verbatim>\<open>JSONDecodeError\<close>).
\<close>

record store_env =
  ACTION_ITEM_DIR :: string
  isalnum :: "string \<Rightarrow> bool"
  json_loads :: "string \<Rightarrow> pyval option"

text \<open>
  The file system: a path has no file, a file with its bytes, or something that \<^verbatim>\<open>open\<close>
  refuses with \<^verbatim>\<open>IOError\<close> (a directory, a file without permission). \<open>makedirs_ok\<close> says
  whether \<^verbatim>\<open>os.makedirs\<close> on the directory succeeds; reading never asks.
\<close>

datatype fnode = File string | Refused

record filesystem =
  nodes :: "string \<Rightarrow> fnode option"
  makedirs_ok :: bool

definition path_join :: "string \<Rightarrow> string \<Rightarrow> string" where
  \<comment> \<open>\<^verbatim>\<open>os.path.join(a, b)\<close> on POSIX\<close>
  "path_join a b =
     (if b \<noteq> [] \<and> hd b = CHR ''/'' then b
      else if a = [] \<or> last a = CHR ''/'' then a @ b
      else a @ ''/'' @ b)"

function utf8_chars :: "string \<Rightarrow> string list" where
  \<comment> \<open>The characters of a string, each as the bytes of its encoding: the first byte of a
      character says how many bytes follow.\<close>
  "utf8_chars [] = []"
| "utf8_chars (a # s) =
     (let n = (if (of_char a :: nat) < 0xC0 then 0
               else if (of_char a :: nat) < 0xE0 then 1
               else if (of_char a :: nat) < 0xF0 then 2 else 3)
      in (a # take n s) # utf8_chars (drop n s))"
  by pat_completeness auto
termination
  by (relation "measure length") auto

definition get_project_file_path :: "store_env \<Rightarrow> string \<Rightarrow> string" where
  \<comment> \<open>The filter keeps or drops whole characters, as the iteration over a Python string does.\<close>
  "get_project_file_path cfg project_id =
     (let safe = concat (filter (\<lambda>c. isalnum cfg c \<or> c = ''_'' \<or> c = ''-'')
                           (utf8_chars project_id));
          safe_project_id = (if safe = [] then ''default_project'' else safe)
      in path_join (ACTION_ITEM_DIR cfg) (safe_project_id @ ''.json''))"

definition load_action_items ::
  "store_env \<Rightarrow> filesystem \<Rightarrow> string \<Rightarrow> py_error + pyval list" where
  \<comment> \<open>The two \<^verbatim>\<open>except\<close> clauses catch \<^verbatim>\<open>json.JSONDecodeError\<close> and \<^verbatim>\<open>IOError\<close>.\<close>
  "load_action_items cfg fs project_id =
     (case nodes fs (get_project_file_path cfg project_id) of
        None \<Rightarrow> Inr []
      | Some Refused \<Rightarrow> Inr []
      | Some (File bytes) \<Rightarrow>
          if \<not> utf8_valid bytes then Inl UnicodeDecodeError
          else (case json_loads cfg bytes of
                  Some (PList data) \<Rightarrow> Inr data
                | Some _ \<Rightarrow> Inr []
                | None \<Rightarrow> Inr []))"

section \<open>Example data\<close>

definition demo_item :: pydict where
  \<comment> \<open>The existing item of the example at the end of action_item_parser.py.\<close>
  "demo_item =
     [(''id'', PStr ''xyz-123''), (''project_id'', PStr ''TestProc''),
      (''task'', PStr ''Update docs''), (''owner'', PStr ''Dave''),
      (''status'', PStr ''In Progress''), (''created_at'', PStr ''2025-04-20T11:00:00Z''),
      (''updated_at'', PStr ''2025-04-25T15:30:00Z''), (''update_history'', PList [])]"

definition demo_repr :: "pyval \<Rightarrow> string" where
  \<comment> \<open>A stand-in for \<^verbatim>\<open>repr\<close> in the examples, none of which prints a list or a dictionary.\<close>
  "demo_repr v = ''...''"

definition demo_loads :: "string \<Rightarrow> pyval option" where
  \<comment> \<open>A decoder that agrees with \<^verbatim>\<open>json.loads\<close> on the texts of the examples: \<^verbatim>\<open>{}\<close> is the
      empty dictionary, and \<^verbatim>\<open>[x]\<close> is not JSON.\<close>
  "demo_loads s = (if s = ''{}'' then Some (PDict []) else None)"

section \<open>Notions used to state the properties of the reconciler\<close>

definition item_id :: "pyval \<Rightarrow> pyval option" where
  "item_id item = (case item of PDict d \<Rightarrow> map_of d ''id'' | _ \<Rightarrow> None)"

definition id_matches :: "pyval list \<Rightarrow> pyval \<Rightarrow> bool" where
  \<comment> \<open>Some existing item has an id equal (\<^verbatim>\<open>==\<close>) to \<open>k\<close>.\<close>
  "id_matches existing k =
     list_ex (\<lambda>item. case item_id item of Some k' \<Rightarrow> py_eq k' k | None \<Rightarrow> False) existing"

definition is_update :: "pyval list \<Rightarrow> pydict \<Rightarrow> bool" where
  \<comment> \<open>The candidate is an update: its id is true as a condition and is the id of an existing
      item.\<close>
  "is_update existing c =
     (truthy (dict_get c ''id'') \<and> id_matches existing (dict_get c ''id''))"

definition creates_item :: "pyval list \<Rightarrow> pyval \<Rightarrow> bool" where
  \<comment> \<open>The candidate reaches the create branch: it is no update and has the key \<^verbatim>\<open>task\<close>.\<close>
  "creates_item existing llm_item =
     (case llm_item of
        PDict c \<Rightarrow> \<not> is_update existing c \<and> map_of c ''task'' \<noteq> None
      | _ \<Rightarrow> False)"

definition history_kept :: "pydict \<Rightarrow> pydict \<Rightarrow> bool" where
  \<comment> \<open>The entries of the history of \<open>d\<close>, when it is a list, still start the history of \<open>d'\<close>.\<close>
  "history_kept d d' =
     (case map_of d ''update_history'' of
        Some (PList h) \<Rightarrow>
          (case map_of d' ''update_history'' of
             Some (PList h') \<Rightarrow> take (length h) h' = h
           | _ \<Rightarrow> False)
      | _ \<Rightarrow> True)"

definition kept :: "pyval \<Rightarrow> pyval \<Rightarrow> bool" where
  \<comment> \<open>\<open>b\<close> is the item \<open>a\<close> with the same id, project and creation time and with its history kept.\<close>
  "kept a b =
     (case a of
        PDict d \<Rightarrow>
          (case b of
             PDict d' \<Rightarrow>
               map_of d' ''id'' = map_of d ''id''
               \<and> map_of d' ''project_id'' = map_of d ''project_id''
               \<and> map_of d' ''created_at'' = map_of d ''created_at''
               \<and> history_kept d d'
           | _ \<Rightarrow> False)
      | _ \<Rightarrow> b = a)"

definition existing_ok :: "pyval list \<Rightarrow> bool" where
  \<comment> \<open>Every existing item is a dictionary with an id that can be a dictionary key.\<close>
  "existing_ok existing =
     list_all (\<lambda>item. case item_id item of Some k \<Rightarrow> hashable k | None \<Rightarrow> False) existing"


definition demo_env :: env where
  "demo_env =
     \<lparr>repr_of = demo_repr,
      utcnow = (\<lambda>i. ''T'' @ nat_dec i),
      uuid4 = (\<lambda>i. ''U'' @ nat_dec i)\<rparr>"

fun new_items :: "env \<Rightarrow> string \<Rightarrow> pyval list \<Rightarrow> nat \<Rightarrow> pyval list \<Rightarrow> pyval list" where
  \<comment> \<open>The items that a call that returns has created, in the order of their candidates: one
      for each candidate that reaches the create branch; \<open>i\<close> is the number of the first
      candidate.\<close>
  "new_items e project_id existing i [] = []"
| "new_items e project_id existing i (llm_item # rest) =
     (case llm_item of
        PDict c \<Rightarrow>
          (if is_update existing c then []
           else (case map_of c ''task'' of
                   Some task \<Rightarrow>
                     [PDict (new_item_of (utcnow e i) (uuid4 e i) project_id task c)]
                 | None \<Rightarrow> []))
      | _ \<Rightarrow> [])
     @ new_items e project_id existing (Suc i) rest"

definition change_msg :: "(pyval \<Rightarrow> string) \<Rightarrow> pydict \<Rightarrow> string \<times> pyval \<Rightarrow> string" where
  \<comment> \<open>The message that the loop of \<open>update_action_item\<close> logs for a pair that differs.\<close>
  "change_msg rp item kv =
     (case map_of item (fst kv) of
        Some old \<Rightarrow> changed_msg rp (fst kv) old (snd kv)
      | None \<Rightarrow> added_msg rp (fst kv) (snd kv))"

section \<open>Properties of update_action_item\<close>

lemma map_of_update_other:
  "k \<noteq> k' \<Longrightarrow> map_of (AList.update k v al) k' = map_of al k'"
  by (simp add: update_conv')

lemma map_of_update_same:
  "map_of (AList.update k v al) k = Some v"
  by (simp add: update_conv')

lemma apply_updates_noop:
  "\<forall>kv\<in>set us. \<not> differs item kv \<Longrightarrow> apply_updates rp us (item, log) = (item, log)"
  by (induction us) (auto simp: differs_def split: option.splits)

lemma apply_updates_log_grows:
  "\<exists>ext. snd (apply_updates rp us (item, log)) = log @ ext"
proof (induction us arbitrary: item log)
  case Nil
  then show ?case by simp
next
  case (Cons kv us)
  obtain key v where kv: "kv = (key, v)" by (cases kv)
  show ?case
  proof (cases "map_of item key")
    case None
    from Cons.IH [of "AList.update key v item" "log @ [added_msg rp key v]"]
    show ?thesis using None kv by auto
  next
    case (Some old)
    show ?thesis
    proof (cases "py_eq old v")
      case True
      with Cons.IH [of item log] Some kv show ?thesis by simp
    next
      case False
      from Cons.IH [of "AList.update key v item" "log @ [changed_msg rp key old v]"]
      show ?thesis using Some kv False by auto
    qed
  qed
qed

lemma apply_updates_logs_change:
  "\<exists>kv\<in>set us. differs item kv \<Longrightarrow> snd (apply_updates rp us (item, [])) \<noteq> []"
proof (induction us)
  case Nil
  then show ?case by simp
next
  case (Cons kv us)
  obtain key v where kv: "kv = (key, v)" by (cases kv)
  show ?case
  proof (cases "differs item kv")
    case True
    then obtain item' m where
      "apply_updates rp (kv # us) (item, []) = apply_updates rp us (item', [m])"
      using kv by (auto simp: differs_def split: option.splits)
    moreover obtain ext where "snd (apply_updates rp us (item', [m])) = [m] @ ext"
      using apply_updates_log_grows by blast
    ultimately show ?thesis by simp
  next
    case False
    then have "apply_updates rp (kv # us) (item, []) = apply_updates rp us (item, [])"
      using kv by (auto simp: differs_def split: option.splits)
    moreover from False Cons.prems have "\<exists>kv\<in>set us. differs item kv" by auto
    ultimately show ?thesis using Cons.IH by simp
  qed
qed

lemma apply_updates_untouched:
  "k \<notin> fst ` set us \<Longrightarrow> map_of (fst (apply_updates rp us (item, log))) k = map_of item k"
proof (induction us arbitrary: item log)
  case Nil
  then show ?case by simp
next
  case (Cons kv us)
  obtain key v where kv: "kv = (key, v)" by (cases kv)
  with Cons.prems have ne: "key \<noteq> k" and rest: "k \<notin> fst ` set us" by auto
  show ?case
    using Cons.IH [OF rest] kv ne
    by (auto simp: map_of_update_other split: option.splits)
qed

lemma revert_status_other:
  "k \<noteq> ''status'' \<Longrightarrow> map_of (revert_status updates change_log item) k = map_of item k"
  by (auto simp: revert_status_def map_of_update_other split: option.splits)

lemma record_history_updated_at:
  "change_log \<noteq> [] \<Longrightarrow> map_of (record_history now change_log item) ''updated_at'' = Some (PStr now)"
  by (simp add: record_history_def Let_def map_of_update_other map_of_update_same)

lemma history_list_updated_at:
  "history_list (AList.update ''updated_at'' v item) = history_list item"
  by (simp add: history_list_def map_of_update_other)

lemma record_history_history:
  "change_log \<noteq> [] \<Longrightarrow>
   map_of (record_history now change_log item) ''update_history'' =
     Some (PList (history_list item @ [history_entry now change_log]))"
  by (simp add: record_history_def Let_def map_of_update_same history_list_updated_at)

lemma revert_status_noop:
  assumes "\<forall>kv\<in>set updates. \<not> differs item kv"
  shows "revert_status updates [] item = item"
proof (cases "map_of updates ''status''")
  case None
  then show ?thesis by (simp add: revert_status_def)
next
  case (Some st)
  then have "(''status'', st) \<in> set updates" by (rule map_of_SomeD)
  with assms have "\<not> differs item (''status'', st)" by blast
  then obtain old where "map_of item ''status'' = Some old"
    by (auto simp: differs_def split: option.splits)
  then have "AList.update ''status'' (dict_get item ''status'') item = item"
    by (simp add: dict_get_def update_triv)
  with Some show ?thesis by (simp add: revert_status_def)
qed

section \<open>Properties of parse_llm_json_response\<close>

text \<open>
  C3, as stated, fails. In the text \<^verbatim>\<open>[x] {}\<close> the slice from the first \<^verbatim>\<open>[\<close> to the last \<^verbatim>\<open>]\<close>
  exists and does not decode, and the slice from the first \<^verbatim>\<open>{\<close> to the last \<^verbatim>\<open>}\<close> decodes to a
  dictionary; the function returns \<^verbatim>\<open>None\<close>, not the dictionary in a list.
\<close>

theorem parse_no_fallback_counterexample:
  "py_find (CHR ''['') ''[x] {}'' = 0 \<and> py_rfind (CHR '']'') ''[x] {}'' = 2 \<and>
   demo_loads (py_slice 0 (2 + 1) ''[x] {}'') = None \<and>
   py_find (CHR ''{'') ''[x] {}'' = 4 \<and> py_rfind (CHR ''}'') ''[x] {}'' = 5 \<and>
   demo_loads (py_slice 4 (5 + 1) ''[x] {}'') = Some (PDict []) \<and>
   parse_llm_json_response demo_loads ''[x] {}'' = None"
  by (simp add: parse_llm_json_response_def demo_loads_def py_rfind_def py_slice_def Let_def)

text \<open>
  C3, amended. When the slice from the first \<^verbatim>\<open>[\<close> to the last \<^verbatim>\<open>]\<close> exists and does not decode,
  the function returns \<^verbatim>\<open>None\<close> and never looks for braces. It falls back to the slice from the
  first \<^verbatim>\<open>{\<close> to the last \<^verbatim>\<open>}\<close> only when the search for the brackets fails (one is
  missing, or the last \<^verbatim>\<open>]\<close> is before the first \<^verbatim>\<open>[\<close>); a dictionary decoded from that slice
  is then returned in a list of one element.
\<close>

theorem parse_fallback_only_without_brackets:
  "(py_find (CHR ''['') s \<noteq> - 1 \<and> py_rfind (CHR '']'') s \<noteq> - 1
      \<and> py_find (CHR ''['') s \<le> py_rfind (CHR '']'') s
      \<and> loads (py_slice (py_find (CHR ''['') s) (py_rfind (CHR '']'') s + 1) s) = None
    \<longrightarrow> parse_llm_json_response loads s = None) \<and>
   (s \<noteq> [] \<and> (py_find (CHR ''['') s = - 1 \<or> py_rfind (CHR '']'') s = - 1
        \<or> py_rfind (CHR '']'') s < py_find (CHR ''['') s)
      \<and> py_find (CHR ''{'') s \<noteq> - 1 \<and> py_rfind (CHR ''}'') s \<noteq> - 1
      \<and> py_find (CHR ''{'') s < py_rfind (CHR ''}'') s
      \<and> loads (py_slice (py_find (CHR ''{'') s) (py_rfind (CHR ''}'') s + 1) s) = Some (PDict d)
    \<longrightarrow> parse_llm_json_response loads s = Some [PDict d])"
  by (auto simp: parse_llm_json_response_def Let_def)

theorem parse_fallback_only_without_brackets_witness:
  "parse_llm_json_response demo_loads ''[x] {}'' = None \<and>
   parse_llm_json_response demo_loads ''x {} y'' = Some [PDict []]"
  using parse_fallback_only_without_brackets [of "''[x] {}''" demo_loads]
        parse_fallback_only_without_brackets [of "''x {} y''" demo_loads "[]"]
  by (simp add: demo_loads_def py_rfind_def py_slice_def)

section \<open>Properties of the store\<close>

text \<open>
  C8. \<open>load_action_items\<close> is to return an empty list, and never to raise, whatever the
  document holds. On a document whose bytes are not UTF-8 (here the one byte \<open>0xFF\<close>) reading
  the file raises \<^verbatim>\<open>UnicodeDecodeError\<close>, which neither \<^verbatim>\<open>except\<close> clause catches.
\<close>

theorem load_action_items_raises_on_bad_utf8:
  "load_action_items cfg \<lparr>nodes = (\<lambda>p. Some (File [CHR 0xFF])), makedirs_ok = True\<rparr> project_id
     = Inl UnicodeDecodeError"
  by (simp add: load_action_items_def)

text \<open>
  The cases that the function does recover from: no file, a file that cannot be opened, a
  text that does not decode, and a text that decodes to something other than a list.
\<close>

lemma load_action_items_recovers:
  "(nodes fs (get_project_file_path cfg p) = None \<longrightarrow> load_action_items cfg fs p = Inr []) \<and>
   (nodes fs (get_project_file_path cfg p) = Some Refused \<longrightarrow> load_action_items cfg fs p = Inr []) \<and>
   (nodes fs (get_project_file_path cfg p) = Some (File bytes) \<and> utf8_valid bytes
      \<and> json_loads cfg bytes = None \<longrightarrow> load_action_items cfg fs p = Inr []) \<and>
   (nodes fs (get_project_file_path cfg p) = Some (File bytes) \<and> utf8_valid bytes
      \<and> json_loads cfg bytes = Some v \<and> (\<forall>xs. v \<noteq> PList xs)
      \<longrightarrow> load_action_items cfg fs p = Inr [])"
  by (auto simp: load_action_items_def split: pyval.splits)

section \<open>The id map\<close>

text \<open>On values that can be keys, \<^verbatim>\<open>==\<close> is an equivalence, so the map behaves as a dictionary.\<close>

lemma py_eq_hashable_sym:
  "hashable a \<Longrightarrow> hashable b \<Longrightarrow> py_eq a b = py_eq b a"
  by (cases a; cases b) auto

lemma py_eq_hashable_trans:
  "hashable a \<Longrightarrow> hashable b \<Longrightarrow> hashable c \<Longrightarrow> py_eq a b \<Longrightarrow> py_eq b c \<Longrightarrow> py_eq a c"
  by (cases a; cases b; cases c) (auto split: if_splits)

lemma map_get_map_put:
  assumes "\<forall>kj\<in>set m. hashable (fst kj)" and "hashable k0" and "hashable k"
  shows "map_get k (map_put k0 i m) = (if py_eq k0 k then Some i else map_get k m)"
  using assms(1)
proof (induction m)
  case Nil
  then show ?case by simp
next
  case (Cons kj m)
  obtain k' j where kj: "kj = (k', j)" by (cases kj)
  with Cons.prems have hk': "hashable k'" and rest: "\<forall>kj\<in>set m. hashable (fst kj)" by auto
  note IH = Cons.IH [OF rest]
  show ?case
  proof (cases "py_eq k' k0")
    case True
    have "py_eq k' k = py_eq k0 k"
      using True hk' assms(2,3) py_eq_hashable_trans py_eq_hashable_sym by blast
    with True kj show ?thesis by simp
  next
    case False
    have "py_eq k' k \<Longrightarrow> \<not> py_eq k0 k"
      using False hk' assms(2,3) py_eq_hashable_trans py_eq_hashable_sym by blast
    with False kj IH show ?thesis by auto
  qed
qed

lemma map_put_keys:
  "kj \<in> set (map_put k0 i m) \<Longrightarrow> fst kj = k0 \<or> fst kj \<in> fst ` set m"
proof (induction m)
  case Nil
  then show ?case by simp
next
  case (Cons a m)
  obtain k' j where a: "a = (k', j)" by (cases a)
  show ?case
  proof (cases "py_eq k' k0")
    case True
    with Cons.prems a have "kj = (k', i) \<or> kj \<in> set m" by simp
    with a show ?thesis by force
  next
    case False
    with Cons.prems a have "kj = (k', j) \<or> kj \<in> set (map_put k0 i m)" by simp
    with a Cons.IH show ?thesis by force
  qed
qed

lemma map_put_hashable:
  assumes "\<forall>kj\<in>set m. hashable (fst kj)" and "hashable k0"
  shows "\<forall>kj\<in>set (map_put k0 i m). hashable (fst kj)"
proof
  fix kj assume "kj \<in> set (map_put k0 i m)"
  then have "fst kj = k0 \<or> fst kj \<in> fst ` set m" by (rule map_put_keys)
  with assms show "hashable (fst kj)" by auto
qed

lemma build_map_Cons:
  "build_map (item # items) i m = Inr m' \<Longrightarrow>
   \<exists>d k0. item = PDict d \<and> map_of d ''id'' = Some k0 \<and> hashable k0
      \<and> build_map items (Suc i) (map_put k0 i m) = Inr m'"
  by (auto split: pyval.splits option.splits if_splits)


lemma build_map_returns:
  "existing_ok items \<Longrightarrow> \<exists>m'. build_map items i m = Inr m'"
proof (induction items arbitrary: i m)
  case Nil
  then show ?case by simp
next
  case (Cons item items)
  then obtain d k0 where "item = PDict d" "map_of d ''id'' = Some k0" "hashable k0"
    and "existing_ok items"
    by (auto simp: existing_ok_def item_id_def split: pyval.splits option.splits)
  with Cons.IH show ?case by simp
qed

lemma build_map_get:
  assumes "build_map items i m = Inr m'" and "\<forall>kj\<in>set m. hashable (fst kj)" and "hashable k"
  shows "(map_get k m' \<noteq> None) = (map_get k m \<noteq> None \<or> id_matches items k)"
  using assms(1,2)
proof (induction items arbitrary: i m)
  case Nil
  then show ?case by (simp add: id_matches_def)
next
  case (Cons item items)
  from build_map_Cons [OF Cons.prems(1)] obtain d k0 where
    item: "item = PDict d" and id: "map_of d ''id'' = Some k0"
    and hk0: "hashable k0" and rest: "build_map items (Suc i) (map_put k0 i m) = Inr m'"
    by blast
  have hm: "\<forall>kj\<in>set (map_put k0 i m). hashable (fst kj)"
    using Cons.prems(2) hk0 by (rule map_put_hashable)
  from Cons.IH [OF rest hm] map_get_map_put [OF Cons.prems(2) hk0 assms(3), of i] item id
  show ?case by (auto simp: id_matches_def item_id_def)
qed


lemma lookup_id_is_update:
  assumes "build_map existing 0 [] = Inr m" and "lookup_id k m = Inr r"
  shows "(r \<noteq> None) = (truthy k \<and> id_matches existing k)"
proof (cases "truthy k")
  case False
  with assms(2) show ?thesis by (simp add: lookup_id_def)
next
  case True
  with assms(2) have h: "hashable k" and r: "r = map_get k m"
    by (auto simp: lookup_id_def split: if_splits)
  from build_map_get [OF assms(1) _ h] r True show ?thesis by simp
qed


section \<open>What an update keeps, and the steps of the reconciler\<close>

lemma record_history_other:
  "k \<noteq> ''updated_at'' \<Longrightarrow> k \<noteq> ''update_history'' \<Longrightarrow>
   map_of (record_history now change_log item) k = map_of item k"
  by (simp add: record_history_def Let_def map_of_update_other)

lemma update_action_item_frame:
  assumes "k \<notin> fst ` set updates" and "k \<noteq> ''status''" and "k \<noteq> ''updated_at''"
    and "k \<noteq> ''update_history''"
  shows "map_of (update_action_item rp now item updates) k = map_of item k"
proof -
  obtain item1 change_log where au: "apply_updates rp updates (item, []) = (item1, change_log)"
    by (cases "apply_updates rp updates (item, [])")
  from apply_updates_untouched [OF assms(1), of rp item "[]"] au
  have "map_of item1 k = map_of item k" by simp
  with au assms(2-4) show ?thesis
    by (simp add: update_action_item_def revert_status_other record_history_other)
qed

lemma update_action_item_history_kept:
  assumes "''update_history'' \<notin> fst ` set updates"
  shows "history_kept item (update_action_item rp now item updates)"
proof -
  obtain item1 change_log where au: "apply_updates rp updates (item, []) = (item1, change_log)"
    by (cases "apply_updates rp updates (item, [])")
  from apply_updates_untouched [OF assms, of rp item "[]"] au
  have same: "map_of item1 ''update_history'' = map_of item ''update_history''" by simp
  have after: "map_of (update_action_item rp now item updates) ''update_history'' =
      map_of (record_history now change_log item1) ''update_history''"
    using au by (simp add: update_action_item_def revert_status_other)
  show ?thesis
  proof (cases "change_log = []")
    case True
    with after same show ?thesis
      by (simp add: history_kept_def record_history_def split: option.splits pyval.splits)
  next
    case False
    from record_history_history [OF False, of now item1] after same show ?thesis
      by (simp add: history_kept_def history_list_def split: option.splits pyval.splits)
  qed
qed

lemma updates_of_keys:
  "k \<in> set IMMUTABLE_KEYS \<Longrightarrow> k \<notin> fst ` set (updates_of c)"
  by (auto simp: updates_of_def)

lemma kept_update:
  "kept (PDict d) (PDict (update_action_item rp now d (updates_of c)))"
  by (simp add: kept_def update_action_item_frame update_action_item_history_kept
        updates_of_keys IMMUTABLE_KEYS_def)

lemma kept_refl: "kept a a"
  by (cases a) (auto simp: kept_def history_kept_def split: option.splits pyval.splits)

lemma history_kept_trans:
  assumes "history_kept a b" and "history_kept b c"
  shows "history_kept a c"
proof (cases "\<exists>h. map_of a ''update_history'' = Some (PList h)")
  case False
  then show ?thesis by (auto simp: history_kept_def split: option.splits pyval.splits)
next
  case True
  then obtain h where h: "map_of a ''update_history'' = Some (PList h)" by blast
  with assms(1) obtain h' where h': "map_of b ''update_history'' = Some (PList h')"
    and p1: "take (length h) h' = h"
    by (auto simp: history_kept_def split: option.splits pyval.splits)
  with assms(2) obtain h'' where h'': "map_of c ''update_history'' = Some (PList h'')"
    and p2: "take (length h') h'' = h'"
    by (auto simp: history_kept_def split: option.splits pyval.splits)
  from p1 have "length (take (length h) h') = length h" by simp
  then have "length h \<le> length h'" by simp
  then have "take (length h) h'' = take (length h) (take (length h') h'')" by (simp add: min_def)
  with p1 p2 have "take (length h) h'' = h" by simp
  with h h'' show ?thesis by (simp add: history_kept_def)
qed

lemma kept_trans: "kept a b \<Longrightarrow> kept b c \<Longrightarrow> kept a c"
  by (cases a; cases b; cases c) (auto simp: kept_def intro: history_kept_trans)

lemma process_item_cases:
  assumes "process_item e project_id m i llm_item (items, new) = Inr (items', new')"
  shows "\<exists>c. llm_item = PDict c \<and>
     ((\<exists>j x. lookup_id (dict_get c ''id'') m = Inr (Some j) \<and> j < length items
          \<and> items ! j = PDict x
          \<and> items' = items[j := PDict (update_action_item (repr_of e) (utcnow e i) x (updates_of c))]
          \<and> new' = new)
      \<or> (\<exists>task. lookup_id (dict_get c ''id'') m = Inr None \<and> map_of c ''task'' = Some task
          \<and> sliceable (dict_get c (''task'' @ [CHR 0x09])) \<and> items' = items
          \<and> new' = new @ [PDict (new_item_of (utcnow e i) (uuid4 e i) project_id task c)])
      \<or> (lookup_id (dict_get c ''id'') m = Inr None \<and> map_of c ''task'' = None
          \<and> items' = items \<and> new' = new))"
  using assms
  by (auto simp: process_item_def split: pyval.splits sum.splits option.splits if_splits)

section \<open>The loop of the reconciler\<close>

lemma process_loop_Cons:
  "process_loop e project_id m i (llm_item # rest) (items, new) = Inr (items', new') \<Longrightarrow>
   \<exists>items1 new1. process_item e project_id m i llm_item (items, new) = Inr (items1, new1)
      \<and> process_loop e project_id m (Suc i) rest (items1, new1) = Inr (items', new')"
  by (auto split: sum.splits)

lemma process_loop_result:
  assumes rel: "\<And>k r. lookup_id k m = Inr r \<Longrightarrow> (r \<noteq> None) = (truthy k \<and> id_matches existing k)"
    and run: "process_loop e project_id m i cs (items, new) = Inr (items', new')"
  shows "length items' = length items \<and> (\<forall>n<length items. kept (items ! n) (items' ! n))
     \<and> new' = new @ new_items e project_id existing i cs"
  using run
proof (induction cs arbitrary: i items new)
  case Nil
  then show ?case by (simp add: kept_refl)
next
  case (Cons llm_item rest)
  from process_loop_Cons [OF Cons.prems] obtain items1 new1 where
    step: "process_item e project_id m i llm_item (items, new) = Inr (items1, new1)"
    and tail: "process_loop e project_id m (Suc i) rest (items1, new1) = Inr (items', new')"
    by blast
  from Cons.IH [OF tail] have
    len: "length items' = length items1"
    and kept1: "\<forall>n<length items1. kept (items1 ! n) (items' ! n)"
    and new1: "new' = new1 @ new_items e project_id existing (Suc i) rest" by auto
  from process_item_cases [OF step] obtain c where c: "llm_item = PDict c"
    and branch:
     "(\<exists>j x. lookup_id (dict_get c ''id'') m = Inr (Some j) \<and> j < length items
          \<and> items ! j = PDict x
          \<and> items1 = items[j := PDict (update_action_item (repr_of e) (utcnow e i) x (updates_of c))]
          \<and> new1 = new)
      \<or> (\<exists>task. lookup_id (dict_get c ''id'') m = Inr None \<and> map_of c ''task'' = Some task
          \<and> sliceable (dict_get c (''task'' @ [CHR 0x09])) \<and> items1 = items
          \<and> new1 = new @ [PDict (new_item_of (utcnow e i) (uuid4 e i) project_id task c)])
      \<or> (lookup_id (dict_get c ''id'') m = Inr None \<and> map_of c ''task'' = None
          \<and> items1 = items \<and> new1 = new)"
    by blast
  from branch show ?case
  proof (elim disjE exE conjE)
    fix j x
    assume look: "lookup_id (dict_get c ''id'') m = Inr (Some j)" and j: "j < length items"
      and x: "items ! j = PDict x"
      and i1: "items1 = items[j := PDict (update_action_item (repr_of e) (utcnow e i) x (updates_of c))]"
      and n1: "new1 = new"
    from rel [OF look] have upd: "is_update existing c" by (simp add: is_update_def)
    have "\<forall>n<length items. kept (items ! n) (items1 ! n)"
    proof (intro allI impI)
      fix n assume "n < length items"
      show "kept (items ! n) (items1 ! n)"
      proof (cases "n = j")
        case True
        with i1 j x show ?thesis by (simp add: kept_update)
      next
        case False
        with i1 show ?thesis by (simp add: kept_refl)
      qed
    qed
    with kept1 i1 have "\<forall>n<length items. kept (items ! n) (items' ! n)"
      by (auto intro: kept_trans)
    with len i1 new1 n1 upd c show ?thesis by simp
  next
    fix task
    assume look: "lookup_id (dict_get c ''id'') m = Inr None" and t: "map_of c ''task'' = Some task"
      and i1: "items1 = items"
      and n1: "new1 = new @ [PDict (new_item_of (utcnow e i) (uuid4 e i) project_id task c)]"
    from rel [OF look] have "\<not> is_update existing c" by (simp add: is_update_def)
    with len kept1 new1 i1 n1 t c show ?thesis by simp
  next
    assume look: "lookup_id (dict_get c ''id'') m = Inr None" and t: "map_of c ''task'' = None"
      and i1: "items1 = items" and n1: "new1 = new"
    from rel [OF look] have "\<not> is_update existing c" by (simp add: is_update_def)
    with len kept1 new1 i1 n1 t c show ?thesis by simp
  qed
qed




lemma process_parsed_items_result:
  assumes "process_parsed_items e project_id parsed existing = Inr out"
  shows "\<exists>items'. out = items' @ new_items e project_id existing 0 parsed
     \<and> length items' = length existing
     \<and> (\<forall>n<length existing. kept (existing ! n) (items' ! n))"
proof -
  from assms obtain m items' new' where
    m: "build_map existing 0 [] = Inr m"
    and run: "process_loop e project_id m 0 parsed (existing, []) = Inr (items', new')"
    and out: "out = items' @ new'"
    by (auto simp: process_parsed_items_def split: sum.splits)
  from process_loop_result [OF lookup_id_is_update [OF m] run] out
  show ?thesis by auto
qed



section \<open>Reading the previous status back from the change log\<close>



lemma hd_py_split_Nil: "hd (py_split sep []) = []"
  by (subst py_split.simps) simp









lemma apply_updates_log:
  assumes "distinct (map fst us)"
    and "\<forall>kv\<in>set us. map_of item (fst kv) = map_of item0 (fst kv)"
  shows "snd (apply_updates rp us (item, log))
     = log @ map (change_msg rp item0) (filter (differs item0) us)"
  using assms
proof (induction us arbitrary: item log)
  case Nil
  then show ?case by simp
next
  case (Cons kv us)
  obtain key v where kv: "kv = (key, v)" by (cases kv)
  from Cons.prems kv have d: "distinct (map fst us)" and fresh: "key \<notin> fst ` set us"
    and here: "map_of item key = map_of item0 key"
    and rest: "\<forall>kv\<in>set us. map_of item (fst kv) = map_of item0 (fst kv)" by auto
  have rest': "\<forall>kv\<in>set us. map_of (AList.update key v item) (fst kv) = map_of item0 (fst kv)"
  proof
    fix kv' assume in_us: "kv' \<in> set us"
    with fresh have "fst kv' \<noteq> key" by auto
    with rest in_us show "map_of (AList.update key v item) (fst kv') = map_of item0 (fst kv')"
      by (simp add: map_of_update_other)
  qed
  show ?case
  proof (cases "differs item0 kv")
    case True
    with here kv have step: "apply_updates rp (kv # us) (item, log)
        = apply_updates rp us (AList.update key v item, log @ [change_msg rp item0 kv])"
      by (auto simp: differs_def change_msg_def split: option.splits)
    from Cons.IH [OF d rest'] step True show ?thesis by simp
  next
    case False
    with here kv have step: "apply_updates rp (kv # us) (item, log)
        = apply_updates rp us (item, log)"
      by (auto simp: differs_def split: option.splits)
    from Cons.IH [OF d rest] step False show ?thesis by simp
  qed
qed


section \<open>Properties of process_parsed_items\<close>

lemma new_items_length:
  "length (new_items e project_id existing i cs) = length (filter (creates_item existing) cs)"
  by (induction cs arbitrary: i)
     (auto simp: creates_item_def split: pyval.splits option.splits)

lemma new_items_append:
  "new_items e project_id existing i (xs @ ys) =
     new_items e project_id existing i xs @ new_items e project_id existing (i + length xs) ys"
  by (induction xs arbitrary: i) auto

lemma new_items_nth:
  assumes "p < length cs" and "cs ! p = PDict c" and "\<not> is_update existing c"
    and "map_of c ''task'' = Some task"
  shows "PDict (new_item_of (utcnow e (i + p)) (uuid4 e (i + p)) project_id task c)
     \<in> set (new_items e project_id existing i cs)"
  using assms(1,2)
proof (induction cs arbitrary: i p)
  case Nil
  then show ?case by simp
next
  case (Cons a cs)
  show ?case
  proof (cases p)
    case 0
    with Cons.prems assms(3,4) show ?thesis by simp
  next
    case (Suc q)
    with Cons.prems have "q < length cs" "cs ! q = PDict c" by auto
    from Cons.IH [OF this, of "Suc i"] Suc show ?thesis by simp
  qed
qed

lemma new_item_of_fields:
  "map_of (new_item_of now uid project_id task c) ''id'' = Some (PStr uid)"
  "map_of (new_item_of now uid project_id task c) ''project_id'' = Some (PStr project_id)"
  "map_of (new_item_of now uid project_id task c) ''task'' = Some task"
  "map_of (new_item_of now uid project_id task c) ''owner'' = Some (dict_get c ''owner'')"
  "map_of (new_item_of now uid project_id task c) ''deadline'' = Some (dict_get c ''deadline'')"
  "map_of (new_item_of now uid project_id task c) ''source_meeting'' = Some (PStr ''LLM Extraction'')"
  "map_of (new_item_of now uid project_id task c) ''update_history'' = Some (PList [])"
  by (auto simp: new_item_of_def create_action_item_def Let_def split: option.splits)

lemma new_item_of_status:
  "map_of (new_item_of now uid project_id task c) ''status'' =
     Some (case map_of c ''status'' of
             Some s \<Rightarrow> if valid_status s then s else PStr ''Open''
           | None \<Rightarrow> PStr ''Open'')"
  by (auto simp: new_item_of_def create_action_item_def Let_def split: option.splits)

lemma creates_item_dropped:
  "\<not> is_update existing c \<Longrightarrow> map_of c ''task'' = None \<Longrightarrow> \<not> creates_item existing (PDict c)"
  "is_update existing c \<Longrightarrow> \<not> creates_item existing (PDict c)"
  by (simp_all add: creates_item_def)




lemma process_single:
  assumes "build_map existing 0 [] = Inr m"
  shows "process_parsed_items e project_id [llm_item] existing =
     (case process_item e project_id m 0 llm_item (existing, []) of
        Inl err \<Rightarrow> Inl err
      | Inr st \<Rightarrow> Inr (fst st @ snd st))"
  using assms by (auto simp: process_parsed_items_def split: sum.splits)

lemma lookup_id_not_update:
  assumes "build_map existing 0 [] = Inr m"
    and "hashable k \<or> \<not> truthy k" and "\<not> (truthy k \<and> id_matches existing k)"
  shows "lookup_id k m = Inr None"
proof -
  from assms(2) obtain r where r: "lookup_id k m = Inr r"
    by (cases "truthy k") (auto simp: lookup_id_def)
  from lookup_id_is_update [OF assms(1) r] assms(3) have "r = None" by simp
  with r show ?thesis by simp
qed

lemma create_branch_raises:
  assumes "existing_ok existing"
    and "hashable (dict_get c ''id'') \<or> \<not> truthy (dict_get c ''id'')"
    and "\<not> is_update existing c" and "map_of c ''task'' = Some task"
    and "\<not> sliceable (dict_get c (''task'' @ [CHR 0x09]))"
  shows "process_parsed_items e project_id [PDict c] existing = Inl TypeError"
proof -
  from assms(1) obtain m where m: "build_map existing 0 [] = Inr m"
    using build_map_returns [of existing 0 "[]"] by blast
  from assms(3) have "\<not> (truthy (dict_get c ''id'') \<and> id_matches existing (dict_get c ''id''))"
    by (simp add: is_update_def)
  from lookup_id_not_update [OF m assms(2) this] assms(4,5)
  have "process_item e project_id m 0 (PDict c) (existing, []) = Inl TypeError"
    by (simp add: process_item_def)
  with process_single [OF m] show ?thesis by simp
qed

text \<open>
  C6. Merging the single candidate with the task \<^verbatim>\<open>Finalize the report\<close>, the owner \<^verbatim>\<open>Alice\<close> and
  the deadline \<^verbatim>\<open>next Friday\<close> into the empty list is to give one new item. The code raises
  \<^verbatim>\<open>TypeError\<close> before the item is built: the message of the create branch slices the value
  under the key \<^verbatim>\<open>task\<close> followed by a tab, which the candidate does not have. Every candidate
  that reaches the create branch without a string or a list under that key raises in the
  same way (lemma \<open>create_branch_raises\<close>).
\<close>

theorem spec_example_raises:
  "process_parsed_items e project_id
     [PDict [(''task'', PStr ''Finalize the report''), (''owner'', PStr ''Alice''),
             (''deadline'', PStr ''next Friday'')]] []
   = Inl TypeError"
  by (simp add: process_parsed_items_def process_item_def lookup_id_def dict_get_def)

text \<open>
  C10. A candidate with an id that no existing item has, and with a task, is to become a new
  item with a generated id. For the candidate with the id \<^verbatim>\<open>abc-999\<close> and the task \<^verbatim>\<open>Call Bob\<close>
  the code raises \<^verbatim>\<open>TypeError\<close> at the same message, before an identifier is generated.
\<close>

theorem new_candidate_with_id_raises:
  "process_parsed_items e project_id
     [PDict [(''id'', PStr ''abc-999''), (''task'', PStr ''Call Bob'')]] [PDict demo_item]
   = Inl TypeError"
  by (simp add: process_parsed_items_def process_item_def lookup_id_def dict_get_def
        demo_item_def)

text \<open>
  C2, as stated, fails for an empty task. A candidate without an id whose task is the empty
  string, and which has a string under the key that the message slices, is not dropped: the
  result has one item. Without that key the same candidate is not dropped either: the call
  raises.
\<close>

theorem task_key_creates_item_counterexample:
  "\<not> is_update [] [(''task'', PStr []), (''task'' @ [CHR 0x09], PStr [])] \<and>
   process_parsed_items demo_env ''P''
       [PDict [(''task'', PStr []), (''task'' @ [CHR 0x09], PStr [])]] [] =
     Inr [PDict (create_action_item ''T0'' ''U0'' (PStr ''P'') (PStr []) PNone PNone
                   (PStr ''Open'') (PStr ''LLM Extraction''))] \<and>
   process_parsed_items demo_env ''P'' [PDict [(''task'', PStr [])]] [] = Inl TypeError"
  by (simp add: is_update_def id_matches_def process_parsed_items_def process_item_def
        lookup_id_def dict_get_def new_item_of_def demo_env_def)

text \<open>
  C2, amended. A candidate that is no update (its id is false as a condition, or is the id of
  no existing item) and that has no key \<^verbatim>\<open>task\<close> is dropped. Merged alone into a list whose items
  each have an id that can be a key, with an id of its own that can be a key or is false, it
  leaves the list as it is. In every call that returns, it adds nothing to the result: the
  length is that of the existing list plus the number of the other candidates that create an
  item. The test of the code is the presence of the key, not an empty value.
\<close>

theorem candidate_without_task_dropped:
  "(existing_ok existing \<and> (hashable (dict_get c ''id'') \<or> \<not> truthy (dict_get c ''id''))
      \<and> \<not> is_update existing c \<and> map_of c ''task'' = None
      \<longrightarrow> process_parsed_items e project_id [PDict c] existing = Inr existing) \<and>
   (process_parsed_items e project_id (xs @ PDict c # ys) existing = Inr out
      \<and> \<not> is_update existing c \<and> map_of c ''task'' = None
      \<longrightarrow> length out = length existing + length (filter (creates_item existing) (xs @ ys)))"
proof (intro conjI impI)
  assume h: "existing_ok existing \<and> (hashable (dict_get c ''id'') \<or> \<not> truthy (dict_get c ''id''))
      \<and> \<not> is_update existing c \<and> map_of c ''task'' = None"
  then obtain m where m: "build_map existing 0 [] = Inr m"
    using build_map_returns [of existing 0 "[]"] by blast
  from h have "\<not> (truthy (dict_get c ''id'') \<and> id_matches existing (dict_get c ''id''))"
    by (simp add: is_update_def)
  with lookup_id_not_update [OF m] h have "lookup_id (dict_get c ''id'') m = Inr None" by blast
  with h have "process_item e project_id m 0 (PDict c) (existing, []) = Inr (existing, [])"
    by (simp add: process_item_def)
  with process_single [OF m] show "process_parsed_items e project_id [PDict c] existing = Inr existing"
    by simp
next
  assume h: "process_parsed_items e project_id (xs @ PDict c # ys) existing = Inr out
      \<and> \<not> is_update existing c \<and> map_of c ''task'' = None"
  then have out: "process_parsed_items e project_id (xs @ PDict c # ys) existing = Inr out"
    by simp
  from process_parsed_items_result [OF out] have
    "length out = length existing + length (filter (creates_item existing) (xs @ PDict c # ys))"
    by (auto simp: new_items_length)
  with h show "length out = length existing + length (filter (creates_item existing) (xs @ ys))"
    by (simp add: creates_item_dropped)
qed

theorem candidate_without_task_dropped_witness:
  "existing_ok [PDict demo_item]
   \<and> \<not> is_update [PDict demo_item] [(''owner'', PStr ''Eve'')]
   \<and> process_parsed_items demo_env ''P'' [PDict [(''owner'', PStr ''Eve'')]] [PDict demo_item]
       = Inr [PDict demo_item]
   \<and> length [PDict demo_item] = 1 + length (filter (creates_item [PDict demo_item]) [])"
proof -
  let ?c = "[(''owner'', PStr ''Eve'')]"
  have h1: "existing_ok [PDict demo_item]"
    by (simp add: existing_ok_def item_id_def demo_item_def)
  have h2: "hashable (dict_get ?c ''id'') \<or> \<not> truthy (dict_get ?c ''id'')"
    by (simp add: dict_get_def)
  have h3: "\<not> is_update [PDict demo_item] ?c" by (simp add: is_update_def dict_get_def)
  have h4: "map_of ?c ''task'' = None" by simp
  from candidate_without_task_dropped [of "[PDict demo_item]" ?c demo_env "''P''" "[]" "[]"
         "[PDict demo_item]"] h1 h2 h3 h4
  show ?thesis by simp
qed










section \<open>When update_action_item records a change\<close>

text \<open>
  C4, as stated, fails in its closing clause. The update \<^verbatim>\<open>{"status": "Done"}\<close> on the item that
  is \<^verbatim>\<open>In Progress\<close> is logged, then the status is put back: after the call every field has the
  value it had before, and yet \<open>updated_at\<close> has changed and the history has a new entry.
\<close>

theorem reverted_status_bumps_updated_at_counterexample:
  "update_action_item demo_repr ''T1'' demo_item [(''status'', PStr ''Done'')] =
     [(''id'', PStr ''xyz-123''), (''project_id'', PStr ''TestProc''),
      (''task'', PStr ''Update docs''), (''owner'', PStr ''Dave''),
      (''status'', PStr ''In Progress''), (''created_at'', PStr ''2025-04-20T11:00:00Z''),
      (''updated_at'', PStr ''T1''),
      (''update_history'',
         PList [PDict [(''timestamp'', PStr ''T1''),
                       (''changes'', PStr (changed_msg demo_repr ''status''
                                             (PStr ''In Progress'') (PStr ''Done'')))]])]
   \<and> map_of demo_item ''status'' = Some (PStr ''In Progress'')
   \<and> map_of demo_item ''updated_at'' = Some (PStr ''2025-04-25T15:30:00Z'')"
  by code_simp

text \<open>
  C4, amended. When at least one pair of the updates differs from the item as it is before
  the call (its key is new, or its value is not equal to the item's), \<open>update_action_item\<close>
  sets \<open>updated_at\<close> to the time of the call and, for updates that do not assign
  \<open>update_history\<close> themselves, appends exactly one entry to the history the item had (a
  history that is missing or no list starts again from the one entry); the entry holds the
  time and the messages of the call joined by \<^verbatim>\<open>"; "\<close>, one message for each pair that differs.
  When no pair differs, the item is returned unchanged. So \<open>updated_at\<close> changes only when a
  supplied value differs from the value before the call, whether or not the field still
  differs after it.
\<close>

theorem update_action_item_change_recorded:
  "((\<exists>kv\<in>set updates. differs item kv) \<longrightarrow>
      map_of (update_action_item rp now item updates) ''updated_at'' = Some (PStr now) \<and>
      (''update_history'' \<notin> fst ` set updates \<longrightarrow>
         map_of (update_action_item rp now item updates) ''update_history'' =
           Some (PList ((case map_of item ''update_history'' of Some (PList h) \<Rightarrow> h | _ \<Rightarrow> [])
                   @ [PDict [(''timestamp'', PStr now),
                             (''changes'',
                              PStr (py_join ''; '' (snd (apply_updates rp updates (item, [])))))]])))
      \<and> (distinct (map fst updates) \<longrightarrow>
           snd (apply_updates rp updates (item, []))
             = map (change_msg rp item) (filter (differs item) updates))) \<and>
   ((\<forall>kv\<in>set updates. \<not> differs item kv) \<longrightarrow>
      update_action_item rp now item updates = item) \<and>
   (map_of (update_action_item rp now item updates) ''updated_at'' \<noteq> map_of item ''updated_at''
      \<longrightarrow> (\<exists>kv\<in>set updates. differs item kv))"
proof -
  obtain item1 change_log where au: "apply_updates rp updates (item, []) = (item1, change_log)"
    by (cases "apply_updates rp updates (item, [])")
  have noop: "update_action_item rp now item updates = item"
    if all: "\<forall>kv\<in>set updates. \<not> differs item kv"
  proof -
    from all have "apply_updates rp updates (item, []) = (item, [])"
      by (rule apply_updates_noop)
    then show ?thesis
      using revert_status_noop [OF all]
      by (simp add: update_action_item_def record_history_def)
  qed
  have a: "map_of (update_action_item rp now item updates) ''updated_at'' = Some (PStr now) \<and>
      (''update_history'' \<notin> fst ` set updates \<longrightarrow>
         map_of (update_action_item rp now item updates) ''update_history'' =
           Some (PList ((case map_of item ''update_history'' of Some (PList h) \<Rightarrow> h | _ \<Rightarrow> [])
                   @ [PDict [(''timestamp'', PStr now),
                             (''changes'',
                              PStr (py_join ''; '' (snd (apply_updates rp updates (item, [])))))]])))"
    if ex: "\<exists>kv\<in>set updates. differs item kv"
  proof (intro conjI impI)
    from apply_updates_logs_change [OF ex, of rp] au have ne: "change_log \<noteq> []" by simp
    show "map_of (update_action_item rp now item updates) ''updated_at'' = Some (PStr now)"
      using au ne
      by (simp add: update_action_item_def revert_status_other record_history_updated_at)
    assume "''update_history'' \<notin> fst ` set updates"
    from apply_updates_untouched [OF this, of rp item "[]"] au
    have "map_of item1 ''update_history'' = map_of item ''update_history''" by simp
    then have "history_list item1
        = (case map_of item ''update_history'' of Some (PList h) \<Rightarrow> h | _ \<Rightarrow> [])"
      by (simp add: history_list_def)
    then show "map_of (update_action_item rp now item updates) ''update_history'' =
           Some (PList ((case map_of item ''update_history'' of Some (PList h) \<Rightarrow> h | _ \<Rightarrow> [])
                   @ [PDict [(''timestamp'', PStr now),
                             (''changes'',
                              PStr (py_join ''; '' (snd (apply_updates rp updates (item, [])))))]]))"
      using au ne
      by (simp add: update_action_item_def revert_status_other record_history_history
            history_entry_def)
  qed
  have b: "snd (apply_updates rp updates (item, []))
             = map (change_msg rp item) (filter (differs item) updates)"
    if "distinct (map fst updates)"
    using apply_updates_log [OF that, of item item rp "[]"] by simp
  have c: "\<exists>kv\<in>set updates. differs item kv"
    if "map_of (update_action_item rp now item updates) ''updated_at'' \<noteq> map_of item ''updated_at''"
  proof (rule ccontr)
    assume "\<not> (\<exists>kv\<in>set updates. differs item kv)"
    then have "\<forall>kv\<in>set updates. \<not> differs item kv" by blast
    from noop [OF this] that show False by simp
  qed
  from a b noop c show ?thesis by blast
qed

theorem update_action_item_change_recorded_witness:
  "differs demo_item (''owner'', PStr ''Bob'') \<and>
   map_of (update_action_item demo_repr ''T1'' demo_item [(''owner'', PStr ''Bob'')])
     ''updated_at'' = Some (PStr ''T1'') \<and>
   map_of (update_action_item demo_repr ''T1'' demo_item [(''owner'', PStr ''Bob'')])
     ''update_history'' =
       Some (PList [PDict [(''timestamp'', PStr ''T1''),
          (''changes'', PStr (changed_msg demo_repr ''owner'' (PStr ''Dave'') (PStr ''Bob'')))]]) \<and>
   \<not> differs demo_item (''owner'', PStr ''Dave'') \<and>
   update_action_item demo_repr ''T1'' demo_item [(''owner'', PStr ''Dave'')] = demo_item"
proof -
  have d1: "\<exists>kv\<in>set [(''owner'', PStr ''Bob'')]. differs demo_item kv"
    by (simp add: differs_def demo_item_def)
  have log: "snd (apply_updates demo_repr [(''owner'', PStr ''Bob'')] (demo_item, []))
      = [changed_msg demo_repr ''owner'' (PStr ''Dave'') (PStr ''Bob'')]"
    by (simp add: demo_item_def)
  have h: "map_of demo_item ''update_history'' = Some (PList [])" by (simp add: demo_item_def)
  have d2: "\<forall>kv\<in>set [(''owner'', PStr ''Dave'')]. \<not> differs demo_item kv"
    by (simp add: differs_def demo_item_def)
  have nk: "''update_history'' \<notin> fst ` set [(''owner'', PStr ''Bob'')]" by simp
  note T1 = update_action_item_change_recorded
         [of "[(''owner'', PStr ''Bob'')]" demo_item demo_repr "''T1''"]
  from T1 d1 have u: "map_of (update_action_item demo_repr ''T1'' demo_item [(''owner'', PStr ''Bob'')])
     ''updated_at'' = Some (PStr ''T1'')" by blast
  from T1 d1 nk have "map_of (update_action_item demo_repr ''T1'' demo_item [(''owner'', PStr ''Bob'')])
     ''update_history'' =
       Some (PList ((case map_of demo_item ''update_history'' of Some (PList h) \<Rightarrow> h | _ \<Rightarrow> [])
          @ [PDict [(''timestamp'', PStr ''T1''),
               (''changes'',
                PStr (py_join ''; ''
                  (snd (apply_updates demo_repr [(''owner'', PStr ''Bob'')] (demo_item, [])))))]]))"
    by blast
  then have hst: "map_of (update_action_item demo_repr ''T1'' demo_item [(''owner'', PStr ''Bob'')])
     ''update_history'' =
       Some (PList [PDict [(''timestamp'', PStr ''T1''),
          (''changes'', PStr (changed_msg demo_repr ''owner'' (PStr ''Dave'') (PStr ''Bob'')))]])"
    by (simp only: log h option.case pyval.case append_Nil py_join.simps)
  note T2 = update_action_item_change_recorded
         [of "[(''owner'', PStr ''Dave'')]" demo_item demo_repr "''T1''"]
  from T2 d2 have same: "update_action_item demo_repr ''T1'' demo_item [(''owner'', PStr ''Dave'')]
      = demo_item" by blast
  have e1: "differs demo_item (''owner'', PStr ''Bob'')" by (simp add: differs_def demo_item_def)
  have e2: "\<not> differs demo_item (''owner'', PStr ''Dave'')"
    by (simp add: differs_def demo_item_def)
  from e1 u hst e2 same show ?thesis by (intro conjI)
qed

section \<open>Which old values the change log gives back\<close>



lemma startswith_refl: "startswith p p"
  by (induction p) auto








section \<open>An invalid status in update_action_item\<close>

lemma valid_status_PStr: "valid_status (PStr s) = (s \<in> set VALID_STATUSES)"
  by (simp add: valid_status_def list_ex_iff)





end
